theory Spec2Isabelle
  imports Main "HOL-Library.Word" "HOL-Library.Signed_Division"
begin

unbundle bit_operations_syntax

section \<open>Platform\<close>

text \<open>
  The programs are written against the Linux headers (\<open>struct iphdr\<close>, \<open>struct icmphdr\<close>,
  \<open>struct ether_header\<close>) and are modelled for the platform they run on: a little-endian
  LP64 host. \<open>unsigned char\<close> is 8 bits, \<open>unsigned short\<close> 16 bits, \<open>uint32_t\<close> 32 bits
  and \<open>long\<close> 64 bits. A buffer is the list of its bytes; the byte at offset \<open>i\<close> of the
  buffer \<open>m\<close> is \<open>m ! i\<close>.
\<close>

type_synonym byte = "8 word"

text \<open>
  Reading an \<open>unsigned short\<close> through a pointer (\<open>*ptr\<close>) on the little-endian host: the
  byte at the lower address is the low byte.
\<close>

definition host_u16 :: "byte \<Rightarrow> byte \<Rightarrow> 16 word" where
  "host_u16 b0 b1 = ucast b0 + 256 * ucast b1"

text \<open>
  Storing through a pointer on the little-endian host (\<open>icmp->checksum = v\<close>): low byte
  first. Every store the programs make is inside the buffer it writes to.
\<close>

definition store_u8 :: "byte list \<Rightarrow> nat \<Rightarrow> byte \<Rightarrow> byte list" where
  "store_u8 m off v = m[off := v]"

definition store_u16 :: "byte list \<Rightarrow> nat \<Rightarrow> 16 word \<Rightarrow> byte list" where
  "store_u16 m off v = m[off := ucast v, off + 1 := ucast (drop_bit 8 v)]"

definition store_u32 :: "byte list \<Rightarrow> nat \<Rightarrow> 32 word \<Rightarrow> byte list" where
  "store_u32 m off v =
     m[off := ucast v, off + 1 := ucast (drop_bit 8 v),
       off + 2 := ucast (drop_bit 16 v), off + 3 := ucast (drop_bit 24 v)]"

definition load_u16 :: "byte list \<Rightarrow> nat \<Rightarrow> 16 word" where
  "load_u16 m off = host_u16 (m ! off) (m ! (off + 1))"

definition load_u32 :: "byte list \<Rightarrow> nat \<Rightarrow> 32 word" where
  "load_u32 m off =
     ucast (m ! off) + 256 * ucast (m ! (off + 1)) + 65536 * ucast (m ! (off + 2))
       + 16777216 * ucast (m ! (off + 3))"

text \<open>
  The value a receiver reads from the wire, where the first byte is the most significant
  one (network byte order).
\<close>

definition net_u16 :: "byte list \<Rightarrow> nat \<Rightarrow> 16 word" where
  "net_u16 m off = 256 * ucast (m ! off) + ucast (m ! (off + 1))"

definition net_u32 :: "byte list \<Rightarrow> nat \<Rightarrow> 32 word" where
  "net_u32 m off =
     16777216 * ucast (m ! off) + 65536 * ucast (m ! (off + 1)) + 256 * ucast (m ! (off + 2))
       + ucast (m ! (off + 3))"

text \<open>\<open>htons\<close> and \<open>htonl\<close> on the little-endian host reverse the bytes.\<close>

definition htons :: "16 word \<Rightarrow> 16 word" where
  "htons v = push_bit 8 v OR drop_bit 8 v"

definition htonl :: "32 word \<Rightarrow> 32 word" where
  "htonl v =
     push_bit 24 (take_bit 8 v) OR push_bit 16 (take_bit 8 (drop_bit 8 v))
       OR push_bit 8 (take_bit 8 (drop_bit 16 v)) OR drop_bit 24 v"

text \<open>\<open>ntohs\<close> is the same byte swap.\<close>

definition ntohs :: "16 word \<Rightarrow> 16 word" where
  "ntohs v = push_bit 8 v OR drop_bit 8 v"

text \<open>
  \<open>inet_addr\<close> of a dotted quad \<open>a.b.c.d\<close>: the address in network byte order, that is
  the \<open>uint32_t\<close> whose bytes in memory are \<open>a, b, c, d\<close>.
\<close>

definition inet_addr :: "byte \<Rightarrow> byte \<Rightarrow> byte \<Rightarrow> byte \<Rightarrow> 32 word" where
  "inet_addr a b c d = ucast a + 256 * ucast b + 65536 * ucast c + 16777216 * ucast d"

text \<open>Constants of the system headers.\<close>

definition IPPROTO_ICMP :: byte where "IPPROTO_ICMP = 1"
definition IPPROTO_TCP :: byte where "IPPROTO_TCP = 6"
definition IPPROTO_UDP :: byte where "IPPROTO_UDP = 17"
definition ICMP_ECHO :: byte where "ICMP_ECHO = 8"
definition ICMP_ECHOREPLY :: byte where "ICMP_ECHOREPLY = 0"
definition ETHERTYPE_IP :: "16 word" where "ETHERTYPE_IP = 0x0800"
definition ETHERTYPE_ARP :: "16 word" where "ETHERTYPE_ARP = 0x0806"

text \<open>
  \<open>sizeof(struct iphdr)\<close>, \<open>sizeof(struct icmphdr)\<close>, \<open>sizeof(struct ether_header)\<close> and
  \<open>sizeof(struct icmp_timestamp)\<close> (fields of 1, 1, 2, 2, 2, 4, 4 and 4 bytes, no padding).
\<close>

definition sizeof_iphdr :: nat where "sizeof_iphdr = 20"
definition sizeof_icmphdr :: nat where "sizeof_icmphdr = 8"
definition sizeof_ether_header :: nat where "sizeof_ether_header = 14"
definition sizeof_icmp_timestamp :: nat where "sizeof_icmp_timestamp = 20"

section \<open>The checksum function\<close>

text \<open>
  \<^verbatim>\<open>
  sum = 0;
  while (nbytes > 1) { sum += *ptr++; nbytes -= 2; }
  if (nbytes == 1) {
      oddbyte = 0;
      *((u_char *)&oddbyte) = *(u_char *)ptr;
      sum += oddbyte;
  }
  \<close>
  The argument list is the byte range \<open>ptr[0 .. nbytes - 1]\<close>; the accumulator \<open>s\<close> is
  the \<open>long\<close> variable \<open>sum\<close>.
  Storing the last byte through \<open>(u_char *)&oddbyte\<close> sets the byte of \<open>oddbyte\<close> at the
  lower address, the other byte stays 0.
\<close>

fun checksum_loop :: "byte list \<Rightarrow> 64 word \<Rightarrow> 64 word" where
  "checksum_loop (b0 # b1 # rest) s = checksum_loop rest (s + ucast (host_u16 b0 b1))"
| "checksum_loop [b] s = s + ucast (host_u16 b 0)"
| "checksum_loop [] s = s"

text \<open>
  \<^verbatim>\<open>
  sum = (sum >> 16) + (sum & 0xffff);
  sum = sum + (sum >> 16);
  answer = (short)~sum;
  return (answer);
  \<close>
  \<open>>>\<close> on the signed \<open>long\<close> is the arithmetic shift; the result is narrowed to 16 bits.
  \<open>checksum\<close> is the function of \<open>icmpTimestamp.c\<close>, \<open>csum\<close> the one of \<open>icmp_flood.c\<close>.
\<close>

definition checksum :: "byte list \<Rightarrow> 16 word" where
  "checksum bs =
     (let s = checksum_loop bs 0;
          s = signed_drop_bit 16 s + (s AND 0xffff);
          s = s + signed_drop_bit 16 s
      in ucast (NOT s))"

definition csum :: "byte list \<Rightarrow> 16 word" where
  "csum bs =
     (let s = checksum_loop bs 0;
          s = signed_drop_bit 16 s + (s AND 0xffff);
          s = s + signed_drop_bit 16 s
      in ucast (NOT s))"

subsection \<open>The checksum as the specification words it\<close>

text \<open>
  The specification describes the result independently of the two folding statements:
  the input is read as 16-bit words in native order, an odd final byte being the low byte
  of a zero-padded word (\<open>spec_words\<close>); the words are summed; the carries beyond 16 bits
  are added back until none remains (\<open>spec_fold\<close>); the result is the complement of
  that, on 16 bits (\<open>spec_checksum\<close>).
\<close>

fun spec_words :: "byte list \<Rightarrow> nat list" where
  "spec_words (b0 # b1 # rest) = (unat b0 + 256 * unat b1) # spec_words rest"
| "spec_words [b] = [unat b]"
| "spec_words [] = []"

function spec_fold :: "nat \<Rightarrow> nat" where
  "spec_fold s = (if s < 65536 then s else spec_fold (s div 65536 + s mod 65536))"
  by pat_completeness auto
termination
proof (relation "measure id")
  fix s :: nat
  assume "\<not> s < 65536"
  then have "1 \<le> s div 65536" by simp
  moreover have "s = 65536 * (s div 65536) + s mod 65536" by simp
  ultimately have "s div 65536 + s mod 65536 < s" by linarith
  then show "(s div 65536 + s mod 65536, s) \<in> measure id" by simp
qed simp

declare spec_fold.simps [simp del]

definition spec_checksum :: "byte list \<Rightarrow> 16 word" where
  "spec_checksum bs = NOT (of_nat (spec_fold (sum_list (spec_words bs))))"

text \<open>The two folding statements of the code, on the unsigned value of \<open>sum\<close>.\<close>

definition fold2 :: "nat \<Rightarrow> nat" where
  "fold2 S = (let s1 = S div 65536 + S mod 65536 in s1 + s1 div 65536)"

section \<open>The timestamp request of \<open>icmpTimestamp.c\<close>\<close>

text \<open>
  \<^verbatim>\<open>
  char packet[sizeof(struct icmp_timestamp)];
  struct icmp_timestamp *icmp = (struct icmp_timestamp *)packet;
  icmp->type = 13;  icmp->code = 0;  icmp->checksum = 0;
  icmp->id = getpid();  icmp->sequence = 1;
  gettimeofday(&tv, NULL);
  uint32_t milliseconds = (tv.tv_sec % 86400) * 1000 + (tv.tv_usec / 1000);
  icmp->originate_timestamp = htonl(milliseconds);
  icmp->receive_timestamp = 0;  icmp->transmit_timestamp = 0;
  icmp->checksum = checksum((unsigned short *)icmp, sizeof(struct icmp_timestamp));
  \<close>
  \<open>packet\<close> is the array as it is before the stores (it is not initialised), \<open>pid\<close> the
  result of \<open>getpid()\<close>, \<open>tv_sec\<close> and \<open>tv_usec\<close> the two \<open>long\<close> fields that
  \<open>gettimeofday\<close> fills. The fields of the struct are at offsets 0 (type), 1 (code),
  2 (checksum), 4 (id), 6 (sequence), 8, 12 and 16 (the three timestamps). \<open>%\<close> and \<open>/\<close>
  of C truncate towards zero (\<open>smod\<close>, \<open>sdiv\<close>); the sum does not overflow a \<open>long\<close>;
  the assignments to \<open>id\<close> and to \<open>milliseconds\<close> keep the low 16 and 32 bits.
\<close>

definition milliseconds :: "int \<Rightarrow> int \<Rightarrow> 32 word" where
  "milliseconds tv_sec tv_usec = word_of_int ((tv_sec smod 86400) * 1000 + tv_usec sdiv 1000)"

definition timestamp_packet :: "byte list \<Rightarrow> int \<Rightarrow> int \<Rightarrow> int \<Rightarrow> byte list" where
  "timestamp_packet packet pid tv_sec tv_usec =
     (let p = store_u8 packet 0 13;
          p = store_u8 p 1 0;
          p = store_u16 p 2 0;
          p = store_u16 p 4 (word_of_int pid);
          p = store_u16 p 6 1;
          p = store_u32 p 8 (htonl (milliseconds tv_sec tv_usec));
          p = store_u32 p 12 0;
          p = store_u32 p 16 0;
          p = store_u16 p 2 (checksum (take sizeof_icmp_timestamp p))
      in p)"

section \<open>The datagram of \<open>icmp_flood.c\<close>\<close>

text \<open>
  \<^verbatim>\<open>
  char *spoofed_ips[] = {"10.0.0.3", "10.0.0.4", "10.0.0.5", "10.0.0.6"};
  \<close>
\<close>

definition spoofed_ips :: "(byte \<times> byte \<times> byte \<times> byte) list" where
  "spoofed_ips = [(10, 0, 0, 3), (10, 0, 0, 4), (10, 0, 0, 5), (10, 0, 0, 6)]"

text \<open>
  \<^verbatim>\<open>
  memset(datagram, 0, 4096);
  struct iphdr *iph = (struct iphdr *) datagram;
  struct icmphdr *icmph = (struct icmphdr *) (datagram + sizeof(struct iphdr));
  iph->ihl = 5;  iph->version = 4;  iph->tos = 0;
  iph->tot_len = sizeof(struct iphdr) + sizeof(struct icmphdr);
  iph->id = htons(12345);  iph->frag_off = 0;  iph->ttl = 255;
  iph->protocol = IPPROTO_ICMP;  iph->check = 0;
  iph->daddr = sin.sin_addr.s_addr;
  icmph->type = ICMP_ECHO;  icmph->code = 0;
  icmph->un.echo.id = htons(getpid());
  icmph->un.echo.sequence = 0;  icmph->checksum = 0;
  \<close>
  \<open>struct iphdr\<close> on the little-endian host: byte 0 holds \<open>ihl\<close> in its low four bits and
  \<open>version\<close> in its high four bits; then tos (1), tot_len (2), id (4), frag_off (6),
  ttl (8), protocol (9), check (10), saddr (12), daddr (16). \<open>struct icmphdr\<close> starts at
  offset 20: type (20), code (21), checksum (22), echo.id (24), echo.sequence (26).
  \<open>daddr\<close> is \<open>sin.sin_addr.s_addr\<close>, the result of \<open>inet_addr(target_ip)\<close>.
\<close>

definition flood_setup :: "int \<Rightarrow> 32 word \<Rightarrow> byte list" where
  "flood_setup pid daddr =
     (let d = replicate 4096 0;
          d = store_u8 d 0 ((d ! 0 AND 0xF0) OR 5);
          d = store_u8 d 0 ((d ! 0 AND 0x0F) OR push_bit 4 4);
          d = store_u8 d 1 0;
          d = store_u16 d 2 (of_nat (sizeof_iphdr + sizeof_icmphdr));
          d = store_u16 d 4 (htons 12345);
          d = store_u16 d 6 0;
          d = store_u8 d 8 255;
          d = store_u8 d 9 IPPROTO_ICMP;
          d = store_u16 d 10 0;
          d = store_u32 d 16 daddr;
          d = store_u8 d 20 ICMP_ECHO;
          d = store_u8 d 21 0;
          d = store_u16 d 24 (htons (word_of_int pid));
          d = store_u16 d 26 0;
          d = store_u16 d 22 0
      in d)"

text \<open>
  The byte ranges the two \<open>csum\<close> calls of the loop body are given:
  \<open>csum((unsigned short *)icmph, sizeof(struct icmphdr))\<close> and
  \<open>csum((unsigned short *)datagram, iph->tot_len)\<close>.
\<close>

definition icmp_csum_range :: "byte list \<Rightarrow> byte list" where
  "icmp_csum_range d = take sizeof_icmphdr (drop sizeof_iphdr d)"

definition ip_csum_range :: "byte list \<Rightarrow> byte list" where
  "ip_csum_range d = take (unat (load_u16 d 2)) d"

text \<open>
  \<^verbatim>\<open>
  char *chosen_src = spoofed_ips[rand() % 4];
  iph->saddr = inet_addr(chosen_src);
  icmph->un.echo.sequence = htons(rand() % 65535);
  icmph->checksum = 0;
  icmph->checksum = csum((unsigned short *)icmph, sizeof(struct icmphdr));
  iph->check = 0;
  iph->check = csum((unsigned short *)datagram, iph->tot_len);
  sendto(s, datagram, iph->tot_len, 0, ...);
  \<close>
  One turn of the loop, on the two values \<open>r1\<close> and \<open>r2\<close> that \<open>rand()\<close> returns
  (between 0 and \<open>RAND_MAX\<close>).
\<close>

definition flood_iteration :: "nat \<Rightarrow> nat \<Rightarrow> byte list \<Rightarrow> byte list" where
  "flood_iteration r1 r2 d =
     (let (a, b, c, e) = spoofed_ips ! (r1 mod 4);
          d = store_u32 d 12 (inet_addr a b c e);
          d = store_u16 d 26 (htons (of_nat (r2 mod 65535)));
          d = store_u16 d 22 0;
          d = store_u16 d 22 (csum (icmp_csum_range d));
          d = store_u16 d 10 0;
          d = store_u16 d 10 (csum (ip_csum_range d))
      in d)"

text \<open>
  The loop \<open>while (1)\<close> never ends; \<open>flood_run rs d\<close> is the datagram after as many turns
  as \<open>rs\<close> has pairs of random values.
\<close>

fun flood_run :: "(nat \<times> nat) list \<Rightarrow> byte list \<Rightarrow> byte list" where
  "flood_run [] d = d"
| "flood_run ((r1, r2) # rs) d = flood_run rs (flood_iteration r1 r2 d)"

section \<open>The packet handlers of \<open>analyzer.c\<close> and \<open>parser.c\<close>\<close>

text \<open>
  \<open>packet\<close> points to the captured bytes of one frame; the list is those bytes, its
  length the captured length. The handlers never look at the captured length: a read at
  an offset that is not below it is a read past the buffer, recorded as \<open>ReadPast\<close> with
  the offset, and the handler's behaviour from there on is undefined.
\<close>

datatype read_error = ReadPast nat

definition rd8 :: "byte list \<Rightarrow> nat \<Rightarrow> read_error + byte" where
  "rd8 pkt off = (if off < length pkt then Inr (pkt ! off) else Inl (ReadPast off))"

definition rd16 :: "byte list \<Rightarrow> nat \<Rightarrow> read_error + 16 word" where
  "rd16 pkt off =
     (if off + 1 < length pkt then Inr (load_u16 pkt off)
      else Inl (ReadPast (max off (length pkt))))"

text \<open>
  The capture header: \<open>header->ts.tv_sec\<close> and \<open>header->ts.tv_usec\<close>, two \<open>long\<close>
  values of 64 bits in two's complement (\<open>sint\<close> reads one as a signed number).
\<close>

record pcap_pkthdr =
  tv_sec :: "64 word"
  tv_usec :: "64 word"

text \<open>
  The line a handler prints after the time. \<open>analyzer.c\<close>:
  "ICMP Echo Request (Ping)" is \<open>EchoRequest\<close>, "ICMP Echo Reply (Pong)" \<open>EchoReply\<close>,
  "ICMP Type: %d" \<open>OtherICMP\<close>, "TCP Segment" \<open>TCP\<close>, "UDP Datagram" \<open>UDP\<close>,
  "Other IP Protocol (%d)" \<open>OtherIP\<close>, "ARP Packet" \<open>ARP\<close>, "Unknown L2 Protocol"
  \<open>Unknown\<close>. \<open>TimestampRequest\<close> is a classification of the specification; no
  \<open>printf\<close> of the handlers corresponds to it.
\<close>

datatype classification =
    EchoRequest | EchoReply | TimestampRequest | OtherICMP nat
  | TCP | UDP | OtherIP nat | ARP | Unknown

text \<open>
  \<^verbatim>\<open>
  static long start_sec = 0;
  static long start_usec = 0;
  if (start_sec == 0) {
      start_sec = header->ts.tv_sec;
      start_usec = header->ts.tv_usec;
  }
  double relative_time = (header->ts.tv_sec - start_sec)
                       + (header->ts.tv_usec - start_usec) / 1000000.0;
  \<close>
  The two static variables are the state that lasts from one call to the next. Of the
  relative time the model keeps the two \<open>long\<close> differences, which wrap around at 64 bits
  as the subtraction of the host does; the division and the sum are floating-point
  operations on them.
\<close>

record baseline =
  start_sec :: "64 word"
  start_usec :: "64 word"

definition baseline_init :: baseline where
  "baseline_init = \<lparr>start_sec = 0, start_usec = 0\<rparr>"

definition analyzer_time ::
  "baseline \<Rightarrow> pcap_pkthdr \<Rightarrow> baseline \<times> (64 word \<times> 64 word)" where
  "analyzer_time st header =
     (let st = (if start_sec st = 0
                then st\<lparr>start_sec := tv_sec header, start_usec := tv_usec header\<rparr>
                else st)
      in (st, (tv_sec header - start_sec st, tv_usec header - start_usec st)))"

text \<open>
  \<^verbatim>\<open>
  if (ntohs(eth_header->ether_type) == ETHERTYPE_IP) {
      struct ip *ip_header = (struct ip *)(packet + sizeof(struct ether_header));
      if (ip_header->ip_p == IPPROTO_ICMP) {
          struct icmp *icmp_header = (struct icmp *)(packet + sizeof(struct ether_header)
                                                     + (ip_header->ip_hl << 2));
          if (icmp_header->icmp_type == ICMP_ECHO) printf("ICMP Echo Request (Ping)");
          else if (icmp_header->icmp_type == ICMP_ECHOREPLY) printf("ICMP Echo Reply (Pong)");
          else printf("ICMP Type: %d", icmp_header->icmp_type);
      } else if (ip_header->ip_p == IPPROTO_TCP) printf("TCP Segment");
      else if (ip_header->ip_p == IPPROTO_UDP) printf("UDP Datagram");
      else printf("Other IP Protocol (%d)", ip_header->ip_p);
  } else if (ntohs(eth_header->ether_type) == ETHERTYPE_ARP) {
      printf("ARP Packet");
  } else {
      printf("Unknown L2 Protocol");
  }
  \<close>
  \<open>ether_type\<close> is at offset 12 of the frame; \<open>ip_p\<close> at offset 9 of the IP header;
  \<open>ip_hl\<close> is the low four bits of its first byte; \<open>icmp_type\<close> is the first byte of
  the ICMP header.
\<close>

definition analyzer_icmp :: "byte list \<Rightarrow> read_error + classification" where
  "analyzer_icmp pkt =
     (case rd8 pkt sizeof_ether_header of
        Inl e \<Rightarrow> Inl e
      | Inr vhl \<Rightarrow>
         (case rd8 pkt (sizeof_ether_header + push_bit 2 (unat (vhl AND 0x0F))) of
            Inl e \<Rightarrow> Inl e
          | Inr icmp_type \<Rightarrow>
              if icmp_type = ICMP_ECHO then Inr EchoRequest
              else if icmp_type = ICMP_ECHOREPLY then Inr EchoReply
              else Inr (OtherICMP (unat icmp_type))))"

definition analyzer_classify :: "byte list \<Rightarrow> read_error + classification" where
  "analyzer_classify pkt =
     (case rd16 pkt 12 of
        Inl e \<Rightarrow> Inl e
      | Inr ether_type \<Rightarrow>
          if ntohs ether_type = ETHERTYPE_IP then
            (case rd8 pkt (sizeof_ether_header + 9) of
               Inl e \<Rightarrow> Inl e
             | Inr ip_p \<Rightarrow>
                 if ip_p = IPPROTO_ICMP then analyzer_icmp pkt
                 else if ip_p = IPPROTO_TCP then Inr TCP
                 else if ip_p = IPPROTO_UDP then Inr UDP
                 else Inr (OtherIP (unat ip_p)))
          else if ntohs ether_type = ETHERTYPE_ARP then Inr ARP
          else Inr Unknown)"

text \<open>
  One call of the handler of \<open>analyzer.c\<close>: the new baseline, the two differences of
  the relative time, and the classification printed (or the read past the buffer).
\<close>

definition analyzer_packet_handler ::
  "baseline \<Rightarrow> pcap_pkthdr \<Rightarrow> byte list
     \<Rightarrow> baseline \<times> (64 word \<times> 64 word) \<times> (read_error + classification)" where
  "analyzer_packet_handler st header packet =
     (let (st, relative_time) = analyzer_time st header
      in (st, relative_time, analyzer_classify packet))"

text \<open>
  \<open>pcap_loop\<close> calls the handler once for each frame of the capture, in order. After a
  read past a buffer the behaviour of the program is undefined: the modelled run ends with
  that frame.
\<close>

fun analyzer_loop ::
  "baseline \<Rightarrow> (pcap_pkthdr \<times> byte list) list
     \<Rightarrow> baseline \<times> ((64 word \<times> 64 word) \<times> (read_error + classification)) list" where
  "analyzer_loop st [] = (st, [])"
| "analyzer_loop st ((header, packet) # frames) =
     (let (st, relative_time, line) = analyzer_packet_handler st header packet
      in case line of
           Inl e \<Rightarrow> (st, [(relative_time, line)])
         | Inr c \<Rightarrow>
             (let (st, out) = analyzer_loop st frames
              in (st, (relative_time, line) # out)))"

text \<open>
  The handler of \<open>parser.c\<close> keeps the seconds only:
  \<^verbatim>\<open>
  static long start_sec = 0;
  if (start_sec == 0) start_sec = header->ts.tv_sec;
  double timestamp = (header->ts.tv_sec - start_sec) + (header->ts.tv_usec / 1000000.0);
  if (ntohs(eth_header->ether_type) == ETHERTYPE_IP) {
      struct ip *ip_header = (struct ip *)(packet + sizeof(struct ether_header));
      if (ip_header->ip_p == IPPROTO_ICMP) { printf("ICMP Packet Detected\n"); ... }
      else if (ip_header->ip_p == IPPROTO_TCP) { printf("TCP Packet Detected\n"); }
      else if (ip_header->ip_p == IPPROTO_UDP) { printf("UDP Packet Detected\n"); }
  } else if (ntohs(eth_header->ether_type) == ETHERTYPE_ARP) {
      printf("ARP Packet Detected\n"); ...
  }
  \<close>
  It prints nothing after the time for another IP protocol or another link type.
\<close>

datatype parser_line = ICMP_Packet | TCP_Packet | UDP_Packet | ARP_Packet | No_Line

definition parser_time ::
  "64 word \<Rightarrow> pcap_pkthdr \<Rightarrow> 64 word \<times> (64 word \<times> 64 word)" where
  "parser_time start header =
     (let start = (if start = 0 then tv_sec header else start)
      in (start, (tv_sec header - start, tv_usec header)))"

definition parser_classify :: "byte list \<Rightarrow> read_error + parser_line" where
  "parser_classify pkt =
     (case rd16 pkt 12 of
        Inl e \<Rightarrow> Inl e
      | Inr ether_type \<Rightarrow>
          if ntohs ether_type = ETHERTYPE_IP then
            (case rd8 pkt (sizeof_ether_header + 9) of
               Inl e \<Rightarrow> Inl e
             | Inr ip_p \<Rightarrow>
                 if ip_p = IPPROTO_ICMP then Inr ICMP_Packet
                 else if ip_p = IPPROTO_TCP then Inr TCP_Packet
                 else if ip_p = IPPROTO_UDP then Inr UDP_Packet
                 else Inr No_Line)
          else if ntohs ether_type = ETHERTYPE_ARP then Inr ARP_Packet
          else Inr No_Line)"

definition parser_packet_handler ::
  "64 word \<Rightarrow> pcap_pkthdr \<Rightarrow> byte list
     \<Rightarrow> 64 word \<times> (64 word \<times> 64 word) \<times> (read_error + parser_line)" where
  "parser_packet_handler start header packet =
     (let (start, timestamp) = parser_time start header
      in (start, timestamp, parser_classify packet))"

fun parser_loop ::
  "64 word \<Rightarrow> (pcap_pkthdr \<times> byte list) list
     \<Rightarrow> 64 word \<times> ((64 word \<times> 64 word) \<times> (read_error + parser_line)) list" where
  "parser_loop start [] = (start, [])"
| "parser_loop start ((header, packet) # frames) =
     (let (start, timestamp, line) = parser_packet_handler start header packet
      in case line of
           Inl e \<Rightarrow> (start, [(timestamp, line)])
         | Inr c \<Rightarrow>
             (let (start, out) = parser_loop start frames
              in (start, (timestamp, line) # out)))"

subsection \<open>The classification as the specification words it\<close>

text \<open>
  The specification's step 4: type 8 is \<open>EchoRequest\<close>, type 0 \<open>EchoReply\<close>, type 13
  \<open>TimestampRequest\<close>, any other value \<open>OtherICMP\<close> of it.
\<close>

definition spec_icmp_class :: "byte \<Rightarrow> classification" where
  "spec_icmp_class t =
     (if t = 8 then EchoRequest else if t = 0 then EchoReply
      else if t = 13 then TimestampRequest else OtherICMP (unat t))"

subsection \<open>An example frame\<close>

text \<open>
  An Ethernet frame of 42 bytes: two zero addresses and the type \<open>0x0800\<close>; an IPv4 header
  of 20 bytes (\<open>0x45\<close>, total length 28, TTL 64, the protocol \<open>ip_p\<close>, 10.0.0.1 to 10.0.0.2);
  an ICMP header of 8 bytes (the type \<open>icmp_type\<close>, code 0, identifier \<open>0x1234\<close>,
  sequence 1).
\<close>

definition example_frame :: "byte \<Rightarrow> byte \<Rightarrow> byte list" where
  "example_frame ip_p icmp_type =
     replicate 12 0 @ [0x08, 0x00]
     @ [0x45, 0, 0, 28, 0, 0, 0, 0, 64, ip_p, 0, 0, 10, 0, 0, 1, 10, 0, 0, 2]
     @ [icmp_type, 0, 0, 0, 0x12, 0x34, 0, 1]"

section \<open>Properties of the checksum\<close>

lemma csum_eq_checksum: "csum bs = checksum bs"
  by (simp add: csum_def checksum_def)

lemma checksum_loop_zeros: "checksum_loop (replicate (2 * n) 0) s = s"
  by (induction n arbitrary: s) (simp_all add: host_u16_def)

lemma unat_host_u16: "unat (host_u16 b0 b1) = unat b0 + 256 * unat b1"
proof -
  have "unat b0 < 256" "unat b1 < 256" using unsigned_less [of b0] unsigned_less [of b1] by simp_all
  then show ?thesis
  by (simp add: host_u16_def unat_word_ariths unsigned_ucast_eq take_bit_eq_mod)
qed

lemma ucast_host_u16: "(ucast (host_u16 b0 b1) :: 64 word) = of_nat (unat b0 + 256 * unat b1)"
  by (simp flip: unat_host_u16)

lemma checksum_loop_sum: "checksum_loop bs s = s + of_nat (sum_list (spec_words bs))"
  by (induction bs s rule: checksum_loop.induct) (simp_all add: ucast_host_u16 del: of_nat_add of_nat_mult, simp_all)

lemma signed_drop_bit_nonneg: "\<not> bit w 63 \<Longrightarrow> signed_drop_bit n w = drop_bit n w" for w :: "64 word"
  by (rule bit_word_eqI) (auto simp add: bit_simps dest: bit_imp_le_length)

lemma not_bit63: "unat w < 2 ^ 63 \<Longrightarrow> \<not> bit w 63" for w :: "64 word"
proof
  assume "unat w < 2 ^ 63" "bit w 63"
  then have "bit (unat w) 63" by (simp add: bit_unsigned_iff)
  then have "odd (unat w div 2 ^ 63)" by (simp add: bit_iff_odd)
  with \<open>unat w < 2 ^ 63\<close> show False by simp
qed

lemma code_fold_nat:
  fixes w :: "64 word"
  assumes "unat w < 2 ^ 47"
  shows "unat (let s = signed_drop_bit 16 w + (w AND 0xffff) in s + signed_drop_bit 16 s) = fold2 (unat w)"
proof -
  have nb: "\<not> bit w 63" using assms by (intro not_bit63) simp
  define s where "s = drop_bit 16 w + (w AND 0xffff)"
  have a: "unat (drop_bit 16 w) = unat w div 65536" for w :: "64 word"
    by (simp only: unat_drop_bit_eq) (simp add: drop_bit_eq_div)
  have "(0xffff :: 64 word) = mask 16" by (simp add: mask_eq_exp_minus_1)
  then have "unat (w AND 0xffff) = unat (take_bit 16 w)" by (simp only: take_bit_eq_mask)
  also have "\<dots> = take_bit 16 (unat w)" by (simp only: unsigned_take_bit_eq)
  also have "\<dots> = unat w mod 65536" by (simp add: take_bit_eq_mod)
  finally have b: "unat (w AND 0xffff) = unat w mod 65536" .
  have c: "unat (x + y) = unat x + unat y" if "unat x + unat y < 2 ^ 64" for x y :: "64 word"
    using that by (simp add: unat_add_lem [THEN iffD1])
  have le: "unat w div 65536 + unat w mod 65536 < 2 ^ 47" 
    using assms by (simp add: div_le_dividend less_imp_le_nat trans_less_add1  add_strict_mono)
  have us: "unat s = unat w div 65536 + unat w mod 65536"
    unfolding s_def using le by (subst c) (simp_all add: a b)
  have nbs: "\<not> bit s 63" using le us by (intro not_bit63) simp
  have "unat s div 65536 \<le> unat s" by (rule div_le_dividend)
  then have "unat (s + drop_bit 16 s) = unat s + unat s div 65536"
    using le us by (subst c) (simp_all add: a)
  then show ?thesis
    by (simp add: Let_def signed_drop_bit_nonneg [OF nb] signed_drop_bit_nonneg [OF nbs] fold2_def us
        flip: s_def)
qed

lemma ucast_not_64_16: "(ucast (NOT w) :: 16 word) = NOT (of_nat (unat w))" for w :: "64 word"
  by (rule bit_word_eqI) (auto simp add: bit_simps)

lemma checksum_nat:
  assumes "sum_list (spec_words bs) < 2 ^ 47"
  shows "checksum bs = NOT (of_nat (fold2 (sum_list (spec_words bs))))"
proof -
  define w :: "64 word" where "w = of_nat (sum_list (spec_words bs))"
  have uw: "unat w = sum_list (spec_words bs)"
    using assms by (simp add: w_def unat_of_nat)
  have "checksum bs = ucast (NOT (let s = signed_drop_bit 16 w + (w AND 0xffff) in s + signed_drop_bit 16 s))"
    by (simp add: checksum_def checksum_loop_sum w_def Let_def)
  also have "\<dots> = NOT (of_nat (fold2 (unat w)))"
    using assms by (simp only: ucast_not_64_16 code_fold_nat uw)
  finally show ?thesis by (simp add: uw)
qed

lemma spec_words_bound: "sum_list (spec_words bs) \<le> 65535 * ((length bs + 1) div 2)"
proof (induction bs rule: spec_words.induct)
  case (1 b0 b1 rest)
  have "unat b0 < 256" "unat b1 < 256" using unsigned_less [of b0] unsigned_less [of b1] by simp_all
  with 1 show ?case by simp
next
  case (2 b)
  have "unat b < 256" using unsigned_less [of b] by simp
  then show ?case by simp
qed simp

lemma spec_fold_small: "s < 65536 \<Longrightarrow> spec_fold s = s"
  by (subst spec_fold.simps) simp

lemma spec_fold_big: "65536 \<le> s \<Longrightarrow> spec_fold s = spec_fold (s div 65536 + s mod 65536)"
  by (subst spec_fold.simps) simp

lemma fold2_spec_fold:
  assumes "S \<le> 4295032830"
  shows "fold2 S mod 65536 = spec_fold S"
proof -
  define hi lo where "hi = S div 65536" and "lo = S mod 65536"
  have S: "S = 65536 * hi + lo" and lo: "lo < 65536" by (simp_all add: hi_def lo_def)
  have hi: "hi \<le> 65536" using assms by (simp add: hi_def)
  have ne: "hi + lo \<le> 131070" using S lo hi assms by linarith
  show ?thesis
  proof (cases "hi + lo < 65536")
    case True
    then have "(hi + lo) div 65536 = 0" by simp
    then have "fold2 S mod 65536 = hi + lo" using True by (simp add: fold2_def Let_def flip: hi_def lo_def)
    moreover have "spec_fold S = hi + lo"
    proof (cases "S < 65536")
      case True
      then have "hi = 0" by (simp add: hi_def)
      then have "S = hi + lo" using S by simp
      then show ?thesis using True by (simp add: spec_fold_small)
    next
      case False
      then have "spec_fold S = spec_fold (hi + lo)" by (simp add: spec_fold_big hi_def lo_def)
      then show ?thesis using True by (simp add: spec_fold_small)
    qed
    ultimately show ?thesis by simp
  next
    case False
    then have d: "(hi + lo) div 65536 = 1" and m: "(hi + lo) mod 65536 = hi + lo - 65536" using ne 
      by (simp_all add: div_nat_eqI mod_if)
    have "fold2 S mod 65536 = (hi + lo + 1) mod 65536" by (simp add: fold2_def Let_def d flip: hi_def lo_def)
    also have "\<dots> = hi + lo - 65535" using False ne by (simp add: mod_if)
    finally have l: "fold2 S mod 65536 = hi + lo - 65535" .
    have "65536 \<le> S" using False S lo by linarith
    then have "spec_fold S = spec_fold (hi + lo)" by (simp add: spec_fold_big hi_def lo_def)
    also have "\<dots> = spec_fold (1 + (hi + lo - 65536))" using False by (simp add: spec_fold_big d m)
    also have "\<dots> = hi + lo - 65535" using False ne by (simp add: spec_fold_small)
    finally show ?thesis using l by simp
  qed
qed

lemma of_nat_mod_16: "(of_nat (n mod 65536) :: 16 word) = of_nat n"
  by (simp add: word_of_nat_eq_iff take_bit_eq_mod)

lemma checksum_eq_spec_checksum_sum:
  assumes S: "sum_list (spec_words bs) \<le> 4295032830"
  shows "checksum bs = spec_checksum bs"
proof -
  from S have "checksum bs = NOT (of_nat (fold2 (sum_list (spec_words bs))))"
    by (intro checksum_nat) simp
  also have "\<dots> = NOT (of_nat (fold2 (sum_list (spec_words bs)) mod 65536))"
    by (simp only: of_nat_mod_16)
  finally show ?thesis by (simp only: fold2_spec_fold [OF S] spec_checksum_def)
qed


lemma spec_words_replicate:
  "spec_words (replicate (2 * n) b @ rest) = replicate n (unat b + 256 * unat b) @ spec_words rest"
  by (induction n) simp_all

lemma big_sum1: "sum_list (spec_words (replicate 131076 0xFF @ [1])) = 4295032831"
  using spec_words_replicate [of 65538 "0xFF" "[1]"] by (simp add: sum_list_replicate)

text \<open>
  C1 (as amended). For every byte range of at most 131076 bytes, \<open>checksum\<close> and \<open>csum\<close>
  return the bitwise complement, on 16 bits, of the sum of the input read as consecutive
  16-bit words in native order, with the carries above 16 bits folded back into the low
  16 bits until none remains, the final byte of an odd-length input being the low byte of
  a zero-padded word.
\<close>

theorem checksum_refines_spec:
  assumes "length bs \<le> 131076"
  shows "checksum bs = spec_checksum bs \<and> csum bs = spec_checksum bs"
proof -
  have "(length bs + 1) div 2 \<le> 65538" using assms by simp
  then have "65535 * ((length bs + 1) div 2) \<le> 65535 * 65538" by (rule mult_le_mono2)
  then have "sum_list (spec_words bs) \<le> 4295032830"
    using spec_words_bound [of bs] by simp
  then have "checksum bs = spec_checksum bs" by (rule checksum_eq_spec_checksum_sum)
  then show ?thesis by (simp add: csum_eq_checksum)
qed

theorem checksum_refines_spec_witness:
  "length [0x45, 0x00, 0x1c :: byte] \<le> 131076 \<and> checksum [0x45, 0x00, 0x1c] = 0xFF9E
    \<and> spec_checksum [0x45, 0x00, 0x1c] = 0xFF9E \<and> csum [0x45, 0x00, 0x1c] = 0xFF9E"
  using checksum_refines_spec [of "[0x45, 0x00, 0x1c]"]
  by (simp add: spec_checksum_def spec_fold_small)

text \<open>
  C1 as stated fails on longer ranges: the code folds twice, not until no carry remains.
  On the 131077 bytes made of 65538 words \<open>0xFFFF\<close> and a last byte 1 the sum is
  \<open>0x10000FFFF\<close>; the code returns \<open>0xFFFF\<close>, the complement of the folded sum is
  \<open>0xFFFE\<close>.
\<close>

theorem checksum_unfolded_carry:
  "checksum (replicate 131076 0xFF @ [1]) = 0xFFFF \<and>
   spec_checksum (replicate 131076 0xFF @ [1]) = 0xFFFE"
proof
  show "checksum (replicate 131076 0xFF @ [1]) = 0xFFFF"
    by (subst checksum_nat) (simp_all add: big_sum1 fold2_def)
  have "spec_fold 4295032831 = 1"
    by (simp add: spec_fold_big spec_fold_small)
  then show "spec_checksum (replicate 131076 0xFF @ [1]) = 0xFFFE"
    by (simp add: spec_checksum_def big_sum1)
qed

lemma length_store_u16 [simp]: "length (store_u16 m off v) = length m"
  by (simp add: store_u16_def)

lemma length_spec_words: "length (spec_words m) = (length m + 1) div 2"
  by (induction m rule: spec_words.induct) simp_all

lemma spec_words_update:
  "even off \<Longrightarrow> Suc off < length m \<Longrightarrow>
   spec_words (m[off := x, Suc off := y]) = (spec_words m)[off div 2 := unat x + 256 * unat y]"
proof (induction m arbitrary: off rule: spec_words.induct)
  case (1 b0 b1 rest)
  show ?case
  proof (cases off)
    case 0
    then show ?thesis by simp
  next
    case (Suc j)
    with \<open>even off\<close> obtain k where k: "off = Suc (Suc k)" by (cases j) auto
    with 1 show ?thesis by simp
  qed
qed simp_all

lemma unat_split_u16: "unat (ucast v :: byte) + 256 * unat (ucast (drop_bit 8 v) :: byte) = unat v"
  for v :: "16 word"
proof -
  have "unat v < 65536" using unsigned_less [of v] by simp
  then have "unat v div 256 < 256" by simp
  moreover have "unat (drop_bit 8 v) = unat v div 256"
    by (simp only: unat_drop_bit_eq) (simp add: drop_bit_eq_div)
  ultimately show ?thesis
    by (simp add: unsigned_ucast_eq take_bit_eq_mod)
qed

lemma spec_words_store_u16:
  "even off \<Longrightarrow> off + 1 < length m \<Longrightarrow>
   spec_words (store_u16 m off v) = (spec_words m)[off div 2 := unat v]"
  by (simp add: store_u16_def spec_words_update unat_split_u16)

lemma spec_fold_le: "spec_fold s \<le> 65535"
proof (induction s rule: spec_fold.induct)
  case (1 s)
  then show ?case by (cases "s < 65536") (simp_all add: spec_fold_small spec_fold_big)
qed

lemma fold_step_mod: "(s div 65536 + s mod 65536) mod 65535 = s mod 65535" for s :: nat
proof -
  have "s = 65535 * (s div 65536) + (s div 65536 + s mod 65536)" by simp
  then have "s mod 65535 = (65535 * (s div 65536) + (s div 65536 + s mod 65536)) mod 65535" by simp
  then show ?thesis by (simp only: mod_mult_self4)
qed

lemma spec_fold_mod: "spec_fold s mod 65535 = s mod 65535"
proof (induction s rule: spec_fold.induct)
  case (1 s)
  then show ?case by (cases "s < 65536") (simp_all add: spec_fold_small spec_fold_big fold_step_mod)
qed

lemma spec_fold_self_le: "spec_fold s \<le> s"
proof (induction s rule: spec_fold.induct)
  case (1 s)
  show ?case
  proof (cases "s < 65536")
    case True
    then show ?thesis by (simp add: spec_fold_small)
  next
    case False
    then have "1 \<le> s div 65536" by simp
    moreover have "s = 65536 * (s div 65536) + s mod 65536" by simp
    ultimately have "s div 65536 + s mod 65536 \<le> s" by linarith
    with 1 False show ?thesis by (simp add: spec_fold_big)
  qed
qed


lemma fold2_multiple:
  assumes "65535 dvd S" "0 < S" "S \<le> 4295098365"
  shows "fold2 S mod 65536 = 65535"
proof -
  define s1 where "s1 = S div 65536 + S mod 65536"
  have "s1 mod 65535 = S mod 65535" unfolding s1_def by (rule fold_step_mod)
  then have "65535 dvd s1" using assms(1) by (simp add: dvd_eq_mod_eq_0)
  then obtain k where k: "s1 = 65535 * k" ..
  have "S div 65536 \<le> 65537" using assms(3) by simp
  moreover have "S mod 65536 < 65536" by simp
  ultimately have "s1 \<le> 131072" unfolding s1_def by linarith
  then have "k \<le> 2" using k by simp
  moreover have "0 < s1"
  proof (cases "S < 65536")
    case True
    then show ?thesis using assms(2) by (simp add: s1_def)
  next
    case False
    then have "1 \<le> S div 65536" by simp
    then show ?thesis by (simp add: s1_def)
  qed
  then have "0 < k" using k by simp
  ultimately have "k = 1 \<or> k = 2" by linarith
  then have "(s1 + s1 div 65536) mod 65536 = 65535" using k by auto
  then show ?thesis by (simp add: fold2_def Let_def s1_def)
qed

lemma unat_not_16: "unat (NOT (of_nat n) :: 16 word) = 65535 - n" if "n \<le> 65535"
proof -
  define w :: "16 word" where "w = of_nat n"
  have u: "unat w = n" using that by (simp add: w_def unat_of_nat)
  have "NOT w = - 1 - w" by (simp add: not_eq_complement)
  moreover have "unat (- 1 - w) = unat (- 1 :: 16 word) - unat w"
    by (rule unat_sub) simp
  ultimately show ?thesis using u by (simp add: w_def unsigned_minus_1_eq_mask mask_eq_exp_minus_1)
qed

lemma big_store:
  "store_u16 (replicate 131076 0xFF @ [c, d, 1]) 131076 v =
   replicate 131076 0xFF @ [ucast v, ucast (drop_bit 8 v), 1]"
  by (simp add: store_u16_def list_update_append)

lemma big_sum2: "sum_list (spec_words (replicate 131076 0xFF @ [a, b, 1])) = 4295032831 + (unat a + 256 * unat b)"
  using spec_words_replicate [of 65538 "0xFF" "[a, b, 1]"] by (simp add: sum_list_replicate)

lemma big_checksum0: "checksum (replicate 131076 0xFF @ [0, 0, 1]) = 0xFFFF"
  by (subst checksum_nat) (simp_all add: big_sum2 fold2_def)

lemma big_checksum1: "checksum (replicate 131076 0xFF @ [0xFF, 0xFF, 1]) = 0xFFFF"
  by (subst checksum_nat) (simp_all add: big_sum2 fold2_def)

lemma byte_65535: "(65535 :: byte) = 255"
  by simp

lemma echo_store: "store_u16 [8, 0, 0x12, 0x34, 0, 1, 0, 7] 2 v = [8, 0, ucast v, ucast (drop_bit 8 v), 0, 1, 0, 7]"
  by (simp add: store_u16_def numeral_2_eq_2)

lemma echo_checksum0: "checksum [8, 0, 0, 0, 0, 1, 0, 7] = 0xF7F7"
  by (simp add: checksum_def host_u16_def)

lemma spec_words_le: "w \<in> set (spec_words bs) \<Longrightarrow> w \<le> 65535"
proof (induction bs rule: spec_words.induct)
  case (1 b0 b1 rest)
  have "unat b0 < 256" "unat b1 < 256" using unsigned_less [of b0] unsigned_less [of b1] by simp_all
  with 1 show ?case by auto
next
  case (2 b)
  have "unat b < 256" using unsigned_less [of b] by simp
  with 2 show ?case by simp
qed simp

lemma sum_list_bounded: "(\<And>x. x \<in> set xs \<Longrightarrow> x \<le> c) \<Longrightarrow> sum_list xs \<le> c * length xs" for c :: nat
  by (induction xs) (simp_all add: add_mono)

lemma sum_list_zeroed:
  fixes c :: nat
  assumes "k < length xs" and "\<And>x. x \<in> set xs \<Longrightarrow> x \<le> c"
  shows "sum_list (xs[k := 0]) \<le> c * (length xs - 1)"
proof -
  have "xs[k := 0] = take k xs @ 0 # drop (Suc k) xs"
    using assms(1) by (rule upd_conv_take_nth_drop)
  then have "sum_list (xs[k := 0]) = sum_list (take k xs) + sum_list (drop (Suc k) xs)" by simp
  also have "\<dots> \<le> c * length (take k xs) + c * length (drop (Suc k) xs)"
    by (intro add_mono sum_list_bounded assms(2)) (auto dest: in_set_takeD in_set_dropD)
  also have "\<dots> = c * (length (take k xs) + length (drop (Suc k) xs))"
    by (simp only: distrib_left)
  also have "length (take k xs) + length (drop (Suc k) xs) = length xs - 1"
    using assms(1) by simp
  finally show ?thesis .
qed

lemma stored_checksum_sum:
  assumes off: "even off" "off + 1 < length B" and len: "length B \<le> 131078"
  defines "S1 \<equiv> sum_list (spec_words (store_u16 (store_u16 B off 0) off (checksum (store_u16 B off 0))))"
  shows "65535 dvd S1" and "0 < S1" and "S1 \<le> 4295098365"
proof -
  define B0 where "B0 = store_u16 B off 0"
  define ws where "ws = spec_words B0"
  define S0 where "S0 = sum_list ws"
  define c where "c = checksum B0"
  have lB0: "length B0 = length B" by (simp add: B0_def)
  have k: "off div 2 < length (spec_words B)" using off by (simp add: length_spec_words)
  have ws: "ws = (spec_words B)[off div 2 := 0]"
    using off by (simp add: ws_def B0_def spec_words_store_u16)
  then have z: "ws ! (off div 2) = 0" and kw: "off div 2 < length ws" using k by simp_all
  have "S0 \<le> 65535 * (length (spec_words B) - 1)"
    unfolding S0_def ws using k by (rule sum_list_zeroed) (rule spec_words_le)
  also have "\<dots> \<le> 65535 * 65538"
    using len by (intro mult_le_mono2) (simp add: length_spec_words)
  finally have S0: "S0 \<le> 4295032830" by simp
  then have "c = spec_checksum B0"
    unfolding c_def by (intro checksum_eq_spec_checksum_sum) (simp add: S0_def ws_def)
  then have uc: "unat c = 65535 - spec_fold S0"
    by (simp add: spec_checksum_def S0_def ws_def unat_not_16 spec_fold_le)
  have "spec_words (store_u16 B0 off c) = ws[off div 2 := unat c]"
    using off lB0 by (simp add: ws_def spec_words_store_u16)
  then have "sum_list (spec_words (store_u16 B0 off c)) = S0 + unat c"
    using kw z by (simp add: sum_list_update S0_def)
  then have S1: "S1 = S0 + unat c" by (simp add: S1_def B0_def c_def)
  have fle: "spec_fold S0 \<le> S0" by (rule spec_fold_self_le)
  have "S0 mod 65535 = spec_fold S0 mod 65535" by (simp only: spec_fold_mod)
  then have "65535 dvd S0 - spec_fold S0" by (simp only: mod_eq_dvd_iff_nat [OF fle])
  then have "65535 dvd (S0 - spec_fold S0) + 65535" by simp
  moreover have "(S0 - spec_fold S0) + 65535 = S0 + unat c"
    using fle spec_fold_le [of S0] by (simp add: uc)
  ultimately show "65535 dvd S1" by (simp add: S1)
  show "0 < S1"
  proof (cases "S0 = 0")
    case True
    then show ?thesis by (simp add: S1 uc spec_fold_small)
  next
    case False
    then show ?thesis by (simp add: S1)
  qed
  show "S1 \<le> 4295098365" using S0 by (simp add: S1 uc)
qed



lemma stored_checksum_verifies:
  assumes off: "even off" "off + 1 < length B" and len: "length B \<le> 131078"
  shows "checksum (store_u16 (store_u16 B off 0) off (checksum (store_u16 B off 0))) = 0"
proof -
  define S1 where "S1 = sum_list (spec_words (store_u16 (store_u16 B off 0) off (checksum (store_u16 B off 0))))"
  note s = stored_checksum_sum [OF assms, folded S1_def]
  have "checksum (store_u16 (store_u16 B off 0) off (checksum (store_u16 B off 0)))
      = NOT (of_nat (fold2 S1))"
    using s(3) by (subst checksum_nat) (simp_all flip: S1_def)
  also have "\<dots> = NOT (of_nat (fold2 S1 mod 65536))"
    by (simp only: of_nat_mod_16)
  also have "\<dots> = 0" by (simp add: fold2_multiple [OF s])
  finally show ?thesis .
qed

text \<open>
  C3 (as amended). For every byte buffer \<open>B\<close> of at most 131078 bytes with a 16-bit
  checksum field at an even offset \<open>off\<close> inside it: zeroing the field, computing
  \<open>checksum\<close> over the buffer, storing the result in the field and running \<open>checksum\<close>
  over the whole buffer again, the checksum field included, yields 0.
\<close>

theorem checksum_store_verifies:
  assumes "even off" and "off + 1 < length B" and "length B \<le> 131078"
  shows "checksum (store_u16 (store_u16 B off 0) off (checksum (store_u16 B off 0))) = 0
    \<and> csum (store_u16 (store_u16 B off 0) off (csum (store_u16 B off 0))) = 0"
  using assms by (simp add: csum_eq_checksum stored_checksum_verifies)

theorem checksum_store_verifies_witness:
  "even (2 :: nat) \<and> 2 + 1 < length [8, 0, 0x12, 0x34, 0, 1, 0, 7 :: byte] \<and>
   length [8, 0, 0x12, 0x34, 0, 1, 0, 7 :: byte] \<le> 131078 \<and>
   checksum (store_u16 [8, 0, 0x12, 0x34, 0, 1, 0, 7] 2 0) = 0xF7F7 \<and>
   checksum (store_u16 (store_u16 [8, 0, 0x12, 0x34, 0, 1, 0, 7] 2 0) 2
     (checksum (store_u16 [8, 0, 0x12, 0x34, 0, 1, 0, 7] 2 0))) = 0"
  using checksum_store_verifies [of 2 "[8, 0, 0x12, 0x34, 0, 1, 0, 7]"]
  by (simp add: echo_store echo_checksum0)

text \<open>
  C3 as stated fails on longer buffers, for the reason C1 does: on the 131079 bytes
  made of 65538 words \<open>0xFFFF\<close>, the checksum field and a last byte 1, the stored
  checksum is \<open>0xFFFF\<close> and the second run returns \<open>0xFFFF\<close>, not 0.
\<close>

theorem checksum_self_verification_fails:
  "checksum (store_u16 (store_u16 (replicate 131076 0xFF @ [0, 0, 1]) 131076 0) 131076
     (checksum (store_u16 (replicate 131076 0xFF @ [0, 0, 1]) 131076 0))) = 0xFFFF"
  by (simp add: big_store big_checksum0 byte_65535 big_checksum1)

text \<open>
  C7. On an all-zero buffer of even length (the empty buffer included) \<open>checksum\<close>
  and \<open>csum\<close> return \<open>0xFFFF\<close>, the one's complement of zero.
\<close>

theorem checksum_all_zero_even:
  "checksum (replicate (2 * n) 0) = 0xFFFF \<and> csum (replicate (2 * n) 0) = 0xFFFF"
  by (simp add: checksum_def csum_def checksum_loop_zeros unsigned_minus_1_eq_mask
      mask_eq_exp_minus_1)

section \<open>Properties of the packet handlers\<close>

lemma host_u16_or: "host_u16 a b = ucast a OR push_bit 8 (ucast b)"
proof -
  have "(ucast a :: 16 word) AND push_bit 8 (ucast b) = 0"
    by (rule bit_word_eqI) (auto simp add: bit_simps dest: bit_imp_le_length)
  then have "(ucast a :: 16 word) + push_bit 8 (ucast b) = ucast a OR push_bit 8 (ucast b)"
    by (rule disjunctive_add_eq_or)
  then show ?thesis by (simp add: host_u16_def push_bit_eq_mult mult.commute)
qed

lemma net_u16_or: "net_u16 m off = push_bit 8 (ucast (m ! off)) OR ucast (m ! (off + 1))"
proof -
  have "push_bit 8 (ucast (m ! off) :: 16 word) AND ucast (m ! (off + 1)) = 0"
    by (rule bit_word_eqI) (auto simp add: bit_simps dest: bit_imp_le_length)
  then have "push_bit 8 (ucast (m ! off) :: 16 word) + ucast (m ! (off + 1)) = push_bit 8 (ucast (m ! off)) OR ucast (m ! (off + 1))"
    by (rule disjunctive_add_eq_or)
  then show ?thesis by (simp add: net_u16_def push_bit_eq_mult mult.commute)
qed

lemma ntohs_load_u16: "ntohs (load_u16 m off) = net_u16 m off"
  unfolding ntohs_def load_u16_def host_u16_or net_u16_or
  by (rule bit_word_eqI) (auto simp add: bit_simps dest: bit_imp_le_length)

lemma rd16_ether_type:
  "rd16 pkt 12 = (if 14 \<le> length pkt then Inr (load_u16 pkt 12) else Inl (ReadPast (max 12 (length pkt))))"
  by (simp add: rd16_def)

lemma analyzer_icmp_eq:
  "analyzer_icmp pkt =
     (if length pkt \<le> 14 then Inl (ReadPast 14)
      else if length pkt \<le> 14 + 4 * unat (pkt ! 14 AND 0x0F)
        then Inl (ReadPast (14 + 4 * unat (pkt ! 14 AND 0x0F)))
      else if pkt ! (14 + 4 * unat (pkt ! 14 AND 0x0F)) = 8 then Inr EchoRequest
      else if pkt ! (14 + 4 * unat (pkt ! 14 AND 0x0F)) = 0 then Inr EchoReply
      else Inr (OtherICMP (unat (pkt ! (14 + 4 * unat (pkt ! 14 AND 0x0F))))))"
  by (simp add: analyzer_icmp_def rd8_def sizeof_ether_header_def push_bit_eq_mult
      ICMP_ECHO_def ICMP_ECHOREPLY_def mult.commute)

lemma analyzer_classify_eq:
  "analyzer_classify pkt =
     (if length pkt < 14 then Inl (ReadPast (max 12 (length pkt)))
      else if net_u16 pkt 12 = 0x0800 then
        (if length pkt < 24 then Inl (ReadPast 23)
         else if pkt ! 23 = 1 then analyzer_icmp pkt
         else if pkt ! 23 = 6 then Inr TCP
         else if pkt ! 23 = 17 then Inr UDP
         else Inr (OtherIP (unat (pkt ! 23))))
      else if net_u16 pkt 12 = 0x0806 then Inr ARP
      else Inr Unknown)"
  by (simp add: analyzer_classify_def rd16_ether_type rd8_def ntohs_load_u16 sizeof_ether_header_def
      ETHERTYPE_IP_def ETHERTYPE_ARP_def IPPROTO_ICMP_def IPPROTO_TCP_def IPPROTO_UDP_def)

lemma parser_classify_eq:
  "parser_classify pkt =
     (if length pkt < 14 then Inl (ReadPast (max 12 (length pkt)))
      else if net_u16 pkt 12 = 0x0800 then
        (if length pkt < 24 then Inl (ReadPast 23)
         else if pkt ! 23 = 1 then Inr ICMP_Packet
         else if pkt ! 23 = 6 then Inr TCP_Packet
         else if pkt ! 23 = 17 then Inr UDP_Packet
         else Inr No_Line)
      else if net_u16 pkt 12 = 0x0806 then Inr ARP_Packet
      else Inr No_Line)"
  by (simp add: parser_classify_def rd16_ether_type rd8_def ntohs_load_u16 sizeof_ether_header_def
      ETHERTYPE_IP_def ETHERTYPE_ARP_def IPPROTO_ICMP_def IPPROTO_TCP_def IPPROTO_UDP_def)

lemma handler_lines:
  "snd (snd (analyzer_packet_handler st h pkt)) = analyzer_classify pkt"
  "snd (snd (parser_packet_handler start h pkt)) = parser_classify pkt"
  by (simp_all add: analyzer_packet_handler_def parser_packet_handler_def split_def Let_def)

lemma example_frame_bytes:
  "length (example_frame p t) = 42"
  "net_u16 (example_frame p t) 12 = 0x0800"
  "example_frame p t ! 14 = 0x45"
  "example_frame p t ! 23 = p"
  "example_frame p t ! 34 = t"
  by (simp_all add: example_frame_def net_u16_def nth_append)

text \<open>
  C4 (as amended). For every captured frame whose Ethernet type is IPv4 and that is long
  enough for the bytes the handler reads, the handler of \<open>analyzer.c\<close> dispatches on the
  IP protocol number: ICMP (1) continues to the ICMP type, TCP (6) is \<open>TCP\<close>, UDP (17) is
  \<open>UDP\<close>, anything else \<open>OtherIP\<close> of the number; the ICMP type 8 is \<open>EchoRequest\<close>, 0 is
  \<open>EchoReply\<close>, and every other value, 13 included, is \<open>OtherICMP\<close> of the type.
\<close>

theorem analyzer_dispatch:
  assumes "net_u16 pkt 12 = 0x0800" and "24 \<le> length pkt"
    and "pkt ! 23 = 1 \<Longrightarrow> 14 + 4 * unat (pkt ! 14 AND 0x0F) < length pkt"
  shows "snd (snd (analyzer_packet_handler st h pkt)) =
     Inr (if pkt ! 23 = 1 then
            (if pkt ! (14 + 4 * unat (pkt ! 14 AND 0x0F)) = 8 then EchoRequest
             else if pkt ! (14 + 4 * unat (pkt ! 14 AND 0x0F)) = 0 then EchoReply
             else OtherICMP (unat (pkt ! (14 + 4 * unat (pkt ! 14 AND 0x0F)))))
          else if pkt ! 23 = 6 then TCP
          else if pkt ! 23 = 17 then UDP
          else OtherIP (unat (pkt ! 23)))"
  using assms by (auto simp add: handler_lines analyzer_classify_eq analyzer_icmp_eq)

theorem analyzer_dispatch_witness:
  "net_u16 (example_frame 1 8) 12 = 0x0800 \<and> 24 \<le> length (example_frame 1 8)
   \<and> example_frame 1 8 ! 23 = 1
   \<and> 14 + 4 * unat (example_frame 1 8 ! 14 AND 0x0F) < length (example_frame 1 8)
   \<and> snd (snd (analyzer_packet_handler baseline_init \<lparr>tv_sec = 1, tv_usec = 0\<rparr> (example_frame 1 8)))
       = Inr EchoRequest"
  using analyzer_dispatch [of "example_frame 1 8" baseline_init "\<lparr>tv_sec = 1, tv_usec = 0\<rparr>"]
  by (simp add: example_frame_bytes)

text \<open>
  C4 as stated fails on the type 13: the handler has no branch for it and prints
  "ICMP Type: 13", where the specification classifies \<open>TimestampRequest\<close>.
\<close>

theorem analyzer_timestamp_unclassified:
  "snd (snd (analyzer_packet_handler baseline_init \<lparr>tv_sec = 1, tv_usec = 0\<rparr> (example_frame 1 13)))
     = Inr (OtherICMP 13)
   \<and> spec_icmp_class 13 = TimestampRequest"
  by (simp add: handler_lines analyzer_classify_eq analyzer_icmp_eq example_frame_bytes
      spec_icmp_class_def)

text \<open>
  C2 (as amended). The handlers have no \<open>Truncated\<close> result and never compare an offset
  with the captured length. Their reads are all inside the buffer exactly when the buffer
  has at least 14 bytes, at least 24 bytes when the Ethernet type is IPv4 and, for the
  handler of \<open>analyzer.c\<close>, more than \<open>14 + 4 * IHL\<close> bytes when the protocol is ICMP;
  a read they make past the buffer is at an offset not below its length.
\<close>

theorem handlers_read_inside_iff:
  "((\<exists>c. snd (snd (analyzer_packet_handler st h pkt)) = Inr c) \<longleftrightarrow>
      14 \<le> length pkt \<and>
      (net_u16 pkt 12 = 0x0800 \<longrightarrow> 24 \<le> length pkt \<and>
         (pkt ! 23 = 1 \<longrightarrow> 14 + 4 * unat (pkt ! 14 AND 0x0F) < length pkt)))
   \<and> ((\<exists>c. snd (snd (parser_packet_handler start h pkt)) = Inr c) \<longleftrightarrow>
      14 \<le> length pkt \<and> (net_u16 pkt 12 = 0x0800 \<longrightarrow> 24 \<le> length pkt))
   \<and> (snd (snd (analyzer_packet_handler st h pkt)) = Inl (ReadPast k) \<longrightarrow> length pkt \<le> k)
   \<and> (snd (snd (parser_packet_handler start h pkt)) = Inl (ReadPast k) \<longrightarrow> length pkt \<le> k)"
  by (auto simp add: handler_lines analyzer_classify_eq analyzer_icmp_eq parser_classify_eq
      split: if_splits)

theorem handlers_read_inside_iff_witness:
  "14 \<le> length (example_frame 1 8) \<and> net_u16 (example_frame 1 8) 12 = 0x0800
   \<and> 24 \<le> length (example_frame 1 8) \<and> example_frame 1 8 ! 23 = 1
   \<and> 14 + 4 * unat (example_frame 1 8 ! 14 AND 0x0F) < length (example_frame 1 8)
   \<and> (\<exists>c. snd (snd (analyzer_packet_handler baseline_init \<lparr>tv_sec = 1, tv_usec = 0\<rparr>
                 (example_frame 1 8))) = Inr c)
   \<and> (\<exists>c. snd (snd (parser_packet_handler 0 \<lparr>tv_sec = 1, tv_usec = 0\<rparr>
                 (example_frame 1 8))) = Inr c)
   \<and> snd (snd (analyzer_packet_handler baseline_init \<lparr>tv_sec = 1, tv_usec = 0\<rparr> [])) = Inl (ReadPast 12)
   \<and> snd (snd (parser_packet_handler 0 \<lparr>tv_sec = 1, tv_usec = 0\<rparr> [])) = Inl (ReadPast 12)
   \<and> length ([] :: byte list) \<le> 12"
proof -
  have "(\<exists>c. snd (snd (analyzer_packet_handler baseline_init \<lparr>tv_sec = 1, tv_usec = 0\<rparr>
                 (example_frame 1 8))) = Inr c)
    \<and> (\<exists>c. snd (snd (parser_packet_handler 0 \<lparr>tv_sec = 1, tv_usec = 0\<rparr>
                 (example_frame 1 8))) = Inr c)"
    using handlers_read_inside_iff [of baseline_init "\<lparr>tv_sec = 1, tv_usec = 0\<rparr>"
        "example_frame 1 8" 0 0]
    by (simp add: example_frame_bytes)
  moreover have "snd (snd (analyzer_packet_handler baseline_init \<lparr>tv_sec = 1, tv_usec = 0\<rparr> []))
      = Inl (ReadPast 12)
    \<and> snd (snd (parser_packet_handler 0 \<lparr>tv_sec = 1, tv_usec = 0\<rparr> [])) = Inl (ReadPast 12)"
    by (simp add: handler_lines analyzer_classify_eq parser_classify_eq)
  ultimately show ?thesis
    using handlers_read_inside_iff [of baseline_init "\<lparr>tv_sec = 1, tv_usec = 0\<rparr>" "[]" 0 12]
    by (simp add: example_frame_bytes)
qed

text \<open>
  C2 as stated fails on every buffer shorter than the headers: on the empty buffer the
  handlers read the Ethernet type at offset 12, on 13 bytes its second byte at offset 13,
  on the first 23 bytes of an IPv4 frame the protocol at offset 23.
\<close>

theorem handlers_read_past_short_buffer:
  "snd (snd (analyzer_packet_handler baseline_init \<lparr>tv_sec = 1, tv_usec = 0\<rparr> [])) = Inl (ReadPast 12)
   \<and> snd (snd (parser_packet_handler 0 \<lparr>tv_sec = 1, tv_usec = 0\<rparr> [])) = Inl (ReadPast 12)
   \<and> snd (snd (analyzer_packet_handler baseline_init \<lparr>tv_sec = 1, tv_usec = 0\<rparr> (replicate 13 0)))
       = Inl (ReadPast 13)
   \<and> snd (snd (analyzer_packet_handler baseline_init \<lparr>tv_sec = 1, tv_usec = 0\<rparr>
                 (take 23 (example_frame 1 8)))) = Inl (ReadPast 23)"
  by (simp add: handler_lines analyzer_classify_eq parser_classify_eq net_u16_def example_frame_def nth_append)

lemma analyzer_loop_unset:
  assumes "\<forall>f \<in> set zs. tv_sec (fst f) = 0"
    and "\<forall>f \<in> set zs. \<exists>c. analyzer_classify (snd f) = Inr c"
  shows "analyzer_loop \<lparr>start_sec = 0, start_usec = u\<rparr> (zs @ rest) =
     (fst (analyzer_loop \<lparr>start_sec = 0,
             start_usec = (if zs = [] then u else tv_usec (fst (last zs)))\<rparr> rest),
      map (\<lambda>f. ((0, 0), analyzer_classify (snd f))) zs
        @ snd (analyzer_loop \<lparr>start_sec = 0,
             start_usec = (if zs = [] then u else tv_usec (fst (last zs)))\<rparr> rest))"
  using assms
proof (induction zs arbitrary: u)
  case Nil
  then show ?case by simp
next
  case (Cons z zs)
  obtain h p where z: "z = (h, p)" by (cases z)
  from Cons.prems z obtain c where c: "analyzer_classify p = Inr c" and h0: "tv_sec h = 0" by auto
  have ih: "analyzer_loop \<lparr>start_sec = 0, start_usec = tv_usec h\<rparr> (zs @ rest) =
     (fst (analyzer_loop \<lparr>start_sec = 0,
             start_usec = (if zs = [] then tv_usec h else tv_usec (fst (last zs)))\<rparr> rest),
      map (\<lambda>f. ((0, 0), analyzer_classify (snd f))) zs
        @ snd (analyzer_loop \<lparr>start_sec = 0,
             start_usec = (if zs = [] then tv_usec h else tv_usec (fst (last zs)))\<rparr> rest))"
    using Cons.prems by (intro Cons.IH) simp_all
  show ?case
    using h0 c
    by (simp add: z analyzer_packet_handler_def analyzer_time_def ih split_def Let_def)
qed

lemma analyzer_loop_fixed:
  assumes "start_sec st \<noteq> 0" and "\<forall>f \<in> set frames. \<exists>c. analyzer_classify (snd f) = Inr c"
  shows "analyzer_loop st frames =
     (st, map (\<lambda>f. ((tv_sec (fst f) - start_sec st, tv_usec (fst f) - start_usec st),
                      analyzer_classify (snd f))) frames)"
  using assms
  by (induction frames) (auto simp add: analyzer_packet_handler_def analyzer_time_def)

lemma parser_loop_unset:
  assumes "\<forall>f \<in> set zs. tv_sec (fst f) = 0"
    and "\<forall>f \<in> set zs. \<exists>c. parser_classify (snd f) = Inr c"
  shows "parser_loop 0 (zs @ rest) =
     (fst (parser_loop 0 rest),
      map (\<lambda>f. ((0, tv_usec (fst f)), parser_classify (snd f))) zs @ snd (parser_loop 0 rest))"
  using assms
proof (induction zs)
  case Nil
  then show ?case by simp
next
  case (Cons z zs)
  obtain h p where z: "z = (h, p)" by (cases z)
  from Cons.prems z obtain c where c: "parser_classify p = Inr c" and h0: "tv_sec h = 0" by auto
  have ih: "parser_loop 0 (zs @ rest) =
     (fst (parser_loop 0 rest),
      map (\<lambda>f. ((0, tv_usec (fst f)), parser_classify (snd f))) zs @ snd (parser_loop 0 rest))"
    using Cons.prems by (intro Cons.IH) simp_all
  show ?case
    using h0 c by (simp add: z parser_packet_handler_def parser_time_def ih split_def Let_def)
qed

lemma parser_loop_fixed:
  assumes "start \<noteq> 0" and "\<forall>f \<in> set frames. \<exists>c. parser_classify (snd f) = Inr c"
  shows "parser_loop start frames =
     (start, map (\<lambda>f. ((tv_sec (fst f) - start, tv_usec (fst f)), parser_classify (snd f))) frames)"
  using assms
  by (induction frames) (auto simp add: parser_packet_handler_def parser_time_def)

lemma unknown_frame:
  "analyzer_classify (replicate 14 0) = Inr Unknown"
  "parser_classify (replicate 14 0) = Inr No_Line"
  by (simp_all add: analyzer_classify_eq parser_classify_eq net_u16_def)

lemma example_frame_classified:
  "analyzer_classify (example_frame 1 8) = Inr EchoRequest"
  "parser_classify (example_frame 1 8) = Inr ICMP_Packet"
  by (simp_all add: analyzer_classify_eq analyzer_icmp_eq parser_classify_eq example_frame_bytes)

text \<open>
  C8 (as amended). The baseline of the relative times is 0 before any call and is still
  not set after frames whose capture seconds are 0; the first call whose frame has
  capture seconds other than 0 sets it to that frame's time; no later call modifies it,
  and the relative time of that frame and of every later one is computed against it, in
  the arithmetic of \<open>long\<close> (\<open>parser.c\<close>: the seconds only). The frames are those of a
  capture that the handlers read inside the buffers.
\<close>

theorem baseline_set_once:
  assumes "\<forall>f \<in> set zs. tv_sec (fst f) = 0" and "tv_sec h \<noteq> 0"
  shows "start_sec baseline_init = 0
    \<and> ((\<forall>f \<in> set (zs @ (h, p) # frames). \<exists>c. analyzer_classify (snd f) = Inr c) \<longrightarrow>
        start_sec (fst (analyzer_loop baseline_init zs)) = 0
        \<and> fst (analyzer_loop baseline_init (zs @ (h, p) # frames))
            = \<lparr>start_sec = tv_sec h, start_usec = tv_usec h\<rparr>
        \<and> map fst (drop (length zs) (snd (analyzer_loop baseline_init (zs @ (h, p) # frames))))
            = map (\<lambda>f. (tv_sec (fst f) - tv_sec h, tv_usec (fst f) - tv_usec h))
                ((h, p) # frames))
    \<and> ((\<forall>f \<in> set (zs @ (h, p) # frames). \<exists>c. parser_classify (snd f) = Inr c) \<longrightarrow>
        fst (parser_loop 0 zs) = 0
        \<and> fst (parser_loop 0 (zs @ (h, p) # frames)) = tv_sec h
        \<and> map fst (drop (length zs) (snd (parser_loop 0 (zs @ (h, p) # frames))))
            = map (\<lambda>f. (tv_sec (fst f) - tv_sec h, tv_usec (fst f))) ((h, p) # frames))"
proof (intro conjI impI)
  show "start_sec baseline_init = 0" by (simp add: baseline_init_def)
next
  assume a: "\<forall>f \<in> set (zs @ (h, p) # frames). \<exists>c. analyzer_classify (snd f) = Inr c"
  then have za: "\<forall>f \<in> set zs. \<exists>c. analyzer_classify (snd f) = Inr c"
    and fa: "\<forall>f \<in> set frames. \<exists>c. analyzer_classify (snd f) = Inr c"
    and pa: "\<exists>c. analyzer_classify p = Inr c" by simp_all
  from pa obtain c where c: "analyzer_classify p = Inr c" ..
  have a1: "analyzer_loop \<lparr>start_sec = 0, start_usec = u\<rparr> ((h, p) # frames) =
      (\<lparr>start_sec = tv_sec h, start_usec = tv_usec h\<rparr>,
       map (\<lambda>f. ((tv_sec (fst f) - tv_sec h, tv_usec (fst f) - tv_usec h),
                      analyzer_classify (snd f))) ((h, p) # frames))" for u
    using assms(2) c fa
    by (simp add: analyzer_packet_handler_def analyzer_time_def analyzer_loop_fixed)
  show "start_sec (fst (analyzer_loop baseline_init zs)) = 0"
    using analyzer_loop_unset [OF assms(1) za, of 0 "[]"] by (simp add: baseline_init_def)
  show "fst (analyzer_loop baseline_init (zs @ (h, p) # frames))
      = \<lparr>start_sec = tv_sec h, start_usec = tv_usec h\<rparr>"
    by (simp add: baseline_init_def analyzer_loop_unset [OF assms(1) za] a1
        del: analyzer_loop.simps(2))
  show "map fst (drop (length zs) (snd (analyzer_loop baseline_init (zs @ (h, p) # frames))))
      = map (\<lambda>f. (tv_sec (fst f) - tv_sec h, tv_usec (fst f) - tv_usec h)) ((h, p) # frames)"
    by (simp add: baseline_init_def analyzer_loop_unset [OF assms(1) za] a1 comp_def
        del: analyzer_loop.simps(2))
next
  assume a: "\<forall>f \<in> set (zs @ (h, p) # frames). \<exists>c. parser_classify (snd f) = Inr c"
  then have zp: "\<forall>f \<in> set zs. \<exists>c. parser_classify (snd f) = Inr c"
    and fp: "\<forall>f \<in> set frames. \<exists>c. parser_classify (snd f) = Inr c"
    and pp: "\<exists>c. parser_classify p = Inr c" by simp_all
  from pp obtain c where c: "parser_classify p = Inr c" ..
  have p1: "parser_loop 0 ((h, p) # frames) =
      (tv_sec h, map (\<lambda>f. ((tv_sec (fst f) - tv_sec h, tv_usec (fst f)), parser_classify (snd f)))
         ((h, p) # frames))"
    using assms(2) c fp
    by (simp add: parser_packet_handler_def parser_time_def parser_loop_fixed)
  show "fst (parser_loop 0 zs) = 0"
    using parser_loop_unset [OF assms(1) zp, of "[]"] by simp
  show "fst (parser_loop 0 (zs @ (h, p) # frames)) = tv_sec h"
    by (simp add: parser_loop_unset [OF assms(1) zp] p1 del: parser_loop.simps(2))
  show "map fst (drop (length zs) (snd (parser_loop 0 (zs @ (h, p) # frames))))
      = map (\<lambda>f. (tv_sec (fst f) - tv_sec h, tv_usec (fst f))) ((h, p) # frames)"
    by (simp add: parser_loop_unset [OF assms(1) zp] p1 comp_def del: parser_loop.simps(2))
qed

theorem baseline_set_once_witness:
  "tv_sec \<lparr>tv_sec = 0, tv_usec = 100\<rparr> = 0
   \<and> tv_sec \<lparr>tv_sec = 5, tv_usec = 7\<rparr> \<noteq> 0
   \<and> analyzer_classify (replicate 14 0) = Inr Unknown
   \<and> analyzer_classify (example_frame 1 8) = Inr EchoRequest
   \<and> parser_classify (replicate 14 0) = Inr No_Line
   \<and> parser_classify (example_frame 1 8) = Inr ICMP_Packet
   \<and> fst (analyzer_loop baseline_init
        [(\<lparr>tv_sec = 0, tv_usec = 100\<rparr>, replicate 14 0),
         (\<lparr>tv_sec = 5, tv_usec = 7\<rparr>, replicate 14 0),
         (\<lparr>tv_sec = 6, tv_usec = 3\<rparr>, example_frame 1 8)])
      = \<lparr>start_sec = 5, start_usec = 7\<rparr>
   \<and> map fst (drop 1 (snd (analyzer_loop baseline_init
        [(\<lparr>tv_sec = 0, tv_usec = 100\<rparr>, replicate 14 0),
         (\<lparr>tv_sec = 5, tv_usec = 7\<rparr>, replicate 14 0),
         (\<lparr>tv_sec = 6, tv_usec = 3\<rparr>, example_frame 1 8)])))
      = [(0, 0), (1, - 4)]
   \<and> fst (parser_loop 0
        [(\<lparr>tv_sec = 0, tv_usec = 100\<rparr>, replicate 14 0),
         (\<lparr>tv_sec = 5, tv_usec = 7\<rparr>, replicate 14 0),
         (\<lparr>tv_sec = 6, tv_usec = 3\<rparr>, example_frame 1 8)]) = 5
   \<and> map fst (drop 1 (snd (parser_loop 0
        [(\<lparr>tv_sec = 0, tv_usec = 100\<rparr>, replicate 14 0),
         (\<lparr>tv_sec = 5, tv_usec = 7\<rparr>, replicate 14 0),
         (\<lparr>tv_sec = 6, tv_usec = 3\<rparr>, example_frame 1 8)])))
      = [(0, 7), (1, 3)]"
  using baseline_set_once [of "[(\<lparr>tv_sec = 0, tv_usec = 100\<rparr>, replicate 14 0)]"
      "\<lparr>tv_sec = 5, tv_usec = 7\<rparr>" "replicate 14 0"
      "[(\<lparr>tv_sec = 6, tv_usec = 3\<rparr>, example_frame 1 8)]"]
  by (simp add: unknown_frame example_frame_classified)

text \<open>
  C8 as stated fails when the capture seconds of the first frame are 0, the value that
  stands for "not set": the first call leaves \<open>start_sec\<close> at 0 and a later call sets the
  baseline again.
\<close>

theorem baseline_modified_later:
  "fst (analyzer_loop baseline_init [(\<lparr>tv_sec = 0, tv_usec = 100\<rparr>, replicate 14 0)])
     = \<lparr>start_sec = 0, start_usec = 100\<rparr>
   \<and> fst (analyzer_loop baseline_init
        [(\<lparr>tv_sec = 0, tv_usec = 100\<rparr>, replicate 14 0),
         (\<lparr>tv_sec = 5, tv_usec = 7\<rparr>, replicate 14 0)])
     = \<lparr>start_sec = 5, start_usec = 7\<rparr>"
  by (simp add: analyzer_packet_handler_def analyzer_time_def baseline_init_def unknown_frame)

section \<open>Properties of the timestamp request\<close>

lemma host_u16_split: "host_u16 (ucast v) (ucast (drop_bit 8 v)) = v"
  by (simp add: word_unat_eq_iff unat_host_u16 unat_split_u16)


lemma nat_split_4:
  fixes n :: nat
  assumes "n < 4294967296"
  shows "16777216 * (n div 16777216 mod 256) + 65536 * (n div 65536 mod 256)
         + 256 * (n div 256 mod 256) + n mod 256 = n"
proof -
  have a: "n div 16777216 mod 256 = n div 16777216" using assms by simp
  have "n div 65536 div 256 = n div 16777216" by (simp add: div_mult2_eq [symmetric])
  then have b: "n div 65536 = 256 * (n div 16777216) + n div 65536 mod 256"
    using mult_div_mod_eq [of 256 "n div 65536"] by simp
  have "n div 256 div 256 = n div 65536" by (simp add: div_mult2_eq [symmetric])
  then have c: "n div 256 = 256 * (n div 65536) + n div 256 mod 256"
    using mult_div_mod_eq [of 256 "n div 256"] by simp
  have d: "n = 256 * (n div 256) + n mod 256" by simp
  show ?thesis using a b c d by linarith
qed

lemma unat_byte_of: "unat (ucast (ucast (drop_bit k v) :: byte) :: 32 word) = unat v div 2 ^ k mod 256"
  for v :: "32 word"
proof -
  have "unat (drop_bit k v) = unat v div 2 ^ k"
    by (simp only: unat_drop_bit_eq) (simp add: drop_bit_eq_div)
  then show ?thesis by (simp add: unsigned_ucast_eq take_bit_eq_mod unat_mod)
qed

lemma htonl_bytes:
  "(ucast (htonl v) :: byte) = ucast (drop_bit 24 v)"
  "(ucast (drop_bit 8 (htonl v)) :: byte) = ucast (drop_bit 16 v)"
  "(ucast (drop_bit 16 (htonl v)) :: byte) = ucast (drop_bit 8 v)"
  "(ucast (drop_bit 24 (htonl v)) :: byte) = ucast v"
  unfolding htonl_def
  by (rule bit_word_eqI; auto simp add: bit_simps dest: bit_imp_le_length)+

lemma net_bytes_htonl:
  "16777216 * ucast (ucast (htonl v) :: byte) + 65536 * ucast (ucast (drop_bit 8 (htonl v)) :: byte)
     + 256 * ucast (ucast (drop_bit 16 (htonl v)) :: byte) + ucast (ucast (drop_bit 24 (htonl v)) :: byte)
   = v" for v :: "32 word"
proof -
  have n: "unat v < 4294967296" using unsigned_less [of v] by simp
  have b0: "unat (ucast (ucast v :: byte) :: 32 word) = unat v mod 256"
    using unat_byte_of [of 0 v] by simp
  have "unat (16777216 * ucast (ucast (drop_bit 24 v) :: byte) + 65536 * ucast (ucast (drop_bit 16 v) :: byte)
     + 256 * ucast (ucast (drop_bit 8 v) :: byte) + ucast (ucast v :: byte) :: 32 word) = unat v"
    using nat_split_4 [OF n] n
    by (simp add: unat_word_ariths unat_byte_of [where k = 24, simplified]
        unat_byte_of [where k = 16, simplified] unat_byte_of [where k = 8, simplified] b0 mod_simps)
  then show ?thesis by (simp add: word_unat_eq_iff htonl_bytes)
qed

lemma milliseconds_value:
  assumes "0 \<le> sec" "0 \<le> usec" "usec < 1000000"
  shows "uint (milliseconds sec usec) = (sec mod 86400) * 1000 + usec div 1000"
proof -
  have s: "sec smod 86400 = sec mod 86400"
    using assms(1) by (simp add: signed_modulo_int_def sgn_if)
  have u: "usec sdiv 1000 = usec div 1000"
    using assms(2) by (simp add: signed_divide_int_def sgn_if)
  have "0 \<le> sec mod 86400" "sec mod 86400 < 86400" by simp_all
  moreover have "0 \<le> usec div 1000" "usec div 1000 < 1000" using assms(2,3) by simp_all
  ultimately have "0 \<le> (sec mod 86400) * 1000 + usec div 1000"
    "(sec mod 86400) * 1000 + usec div 1000 < 4294967296" by simp_all
  then have "((sec mod 86400) * 1000 + usec div 1000) mod 2 ^ 32 = (sec mod 86400) * 1000 + usec div 1000"
    by simp
  then show ?thesis
    by (simp only: milliseconds_def s u uint_word_of_int) simp
qed

lemma timestamp_packet_id:
  "length packet = 20 \<Longrightarrow> load_u16 (timestamp_packet packet pid sec usec) 4 = word_of_int pid"
  by (simp add: timestamp_packet_def Let_def store_u8_def store_u16_def store_u32_def
        load_u16_def host_u16_split)

text \<open>
  C10 (as amended). Every encoded timestamp request has type 13, code 0, sequence 1, an
  identifier equal to the calling process id modulo \<open>2\<^sup>1\<^sup>6\<close> (the field has 16 bits),
  receive and transmit timestamps equal to zero and, for a time of day that
  \<open>gettimeofday\<close> returns (seconds not negative, microseconds from 0 to 999999), an
  originate timestamp equal to \<open>(seconds mod 86400) * 1000 + microseconds div 1000\<close>, stored
  in network byte order. (Identifier and sequence are read as the struct fields hold
  them, in the byte order of the host.)
\<close>

theorem timestamp_packet_fields:
  assumes "length packet = 20" and "0 \<le> sec" and "0 \<le> usec" and "usec < 1000000"
  shows "length (timestamp_packet packet pid sec usec) = 20
    \<and> timestamp_packet packet pid sec usec ! 0 = 13
    \<and> timestamp_packet packet pid sec usec ! 1 = 0
    \<and> uint (load_u16 (timestamp_packet packet pid sec usec) 4) = pid mod 65536
    \<and> load_u16 (timestamp_packet packet pid sec usec) 6 = 1
    \<and> uint (net_u32 (timestamp_packet packet pid sec usec) 8)
        = (sec mod 86400) * 1000 + usec div 1000
    \<and> load_u32 (timestamp_packet packet pid sec usec) 12 = 0
    \<and> load_u32 (timestamp_packet packet pid sec usec) 16 = 0"
proof -
  have "host_u16 1 0 = 1" by (simp add: host_u16_def)
  moreover have "uint (word_of_int pid :: 16 word) = pid mod 65536" by (simp add: uint_word_of_int)
  ultimately show ?thesis
    using assms(1) milliseconds_value [OF assms(2-4)]
    by (simp add: timestamp_packet_def Let_def store_u8_def store_u16_def store_u32_def
        load_u16_def load_u32_def net_u32_def host_u16_split net_bytes_htonl)
qed

theorem timestamp_packet_fields_witness:
  "length (replicate 20 (0 :: byte)) = 20 \<and> (0 :: int) \<le> 1700000001 \<and> (0 :: int) \<le> 2500
   \<and> (2500 :: int) < 1000000
   \<and> timestamp_packet (replicate 20 0) 4242 1700000001 2500 ! 0 = 13
   \<and> uint (load_u16 (timestamp_packet (replicate 20 0) 4242 1700000001 2500) 4) = 4242
   \<and> uint (net_u32 (timestamp_packet (replicate 20 0) 4242 1700000001 2500) 8) = 80001002"
  using timestamp_packet_fields [of "replicate 20 0" 1700000001 2500 4242]
  by simp

text \<open>
  C10 as stated fails for a process id of 65536 or more, which Linux hands out: the
  assignment to the 16-bit field keeps the low 16 bits, so that the process 65537 sends
  the identifier 1.
\<close>

theorem timestamp_id_truncated:
  "uint (load_u16 (timestamp_packet (replicate 20 0) 65537 1700000001 2500) 4) = 1"
  by (simp add: timestamp_packet_id)

section \<open>Properties of the flood datagram\<close>

lemma length_flood_iteration [simp]: "length (flood_iteration r1 r2 d) = length d"
  by (simp add: flood_iteration_def Let_def split_def store_u16_def store_u32_def)

lemma length_flood_run [simp]: "length (flood_run rs d) = length d"
  by (induction rs d rule: flood_run.induct) simp_all

lemma flood_iteration_frame:
  "i \<notin> {10, 11, 12, 13, 14, 15, 22, 23, 26, 27} \<Longrightarrow> flood_iteration r1 r2 d ! i = d ! i"
  by (simp add: flood_iteration_def Let_def split_def store_u16_def store_u32_def)

lemma flood_run_frame:
  "i \<notin> {10, 11, 12, 13, 14, 15, 22, 23, 26, 27} \<Longrightarrow> flood_run rs d ! i = d ! i"
  by (induction rs d rule: flood_run.induct) (simp_all add: flood_iteration_frame)

lemma flood_setup_bytes:
  "length (flood_setup pid daddr) = 4096"
  "flood_setup pid daddr ! 0 = 0x45"
  "flood_setup pid daddr ! 1 = 0"
  "flood_setup pid daddr ! Suc 0 = 0"
  "flood_setup pid daddr ! 2 = 28"
  "flood_setup pid daddr ! 3 = 0"
  "flood_setup pid daddr ! 4 = 0x30"
  "flood_setup pid daddr ! 5 = 0x39"
  "flood_setup pid daddr ! 6 = 0"
  "flood_setup pid daddr ! 7 = 0"
  "flood_setup pid daddr ! 8 = 255"
  "flood_setup pid daddr ! 9 = 1"
  "flood_setup pid daddr ! 20 = 8"
  "flood_setup pid daddr ! 21 = 0"
  by (simp_all add: flood_setup_def Let_def store_u8_def store_u16_def store_u32_def
      sizeof_iphdr_def sizeof_icmphdr_def htons_def IPPROTO_ICMP_def ICMP_ECHO_def)

lemma host_u32_split:
  "ucast (ucast v :: byte) + 256 * ucast (ucast (drop_bit 8 v) :: byte)
     + 65536 * ucast (ucast (drop_bit 16 v) :: byte) + 16777216 * ucast (ucast (drop_bit 24 v) :: byte)
   = v" for v :: "32 word"
proof -
  have n: "unat v < 4294967296" using unsigned_less [of v] by simp
  have b0: "unat (ucast (ucast v :: byte) :: 32 word) = unat v mod 256"
    using unat_byte_of [of 0 v] by simp
  have "unat (ucast (ucast v :: byte) + 256 * ucast (ucast (drop_bit 8 v) :: byte)
     + 65536 * ucast (ucast (drop_bit 16 v) :: byte) + 16777216 * ucast (ucast (drop_bit 24 v) :: byte) :: 32 word)
     = unat v"
    using nat_split_4 [OF n] n
    by (simp add: unat_word_ariths unat_byte_of [where k = 24, simplified]
        unat_byte_of [where k = 16, simplified] unat_byte_of [where k = 8, simplified] b0 mod_simps)
  then show ?thesis by (simp add: word_unat_eq_iff)
qed

lemma flood_setup_words:
  "load_u16 (flood_setup pid daddr) 24 = htons (word_of_int pid)"
  "load_u32 (flood_setup pid daddr) 16 = daddr"
  by (simp_all add: flood_setup_def Let_def store_u8_def store_u16_def store_u32_def
      load_u16_def load_u32_def host_u16_split host_u32_split)

text \<open>
  C9. Whatever the number of turns of the send loop and the random values drawn, only the
  bytes of the IP source address (12 to 15), of the echo sequence number (26, 27) and of
  the two checksums (10, 11 and 22, 23) of the datagram change; version 4, IHL 5, TOS 0,
  total length, identification, fragment offset, TTL 255, protocol ICMP, destination
  address, ICMP type echo request, code 0 and identifier keep the values set before
  the loop.
\<close>

theorem flood_loop_frame:
  "(i \<notin> {10, 11, 12, 13, 14, 15, 22, 23, 26, 27} \<longrightarrow> flood_run rs d ! i = d ! i)
   \<and> length (flood_run rs d) = length d
   \<and> drop_bit 4 (flood_run rs (flood_setup pid daddr) ! 0) = 4
   \<and> flood_run rs (flood_setup pid daddr) ! 0 AND 0x0F = 5
   \<and> flood_run rs (flood_setup pid daddr) ! 1 = 0
   \<and> load_u16 (flood_run rs (flood_setup pid daddr)) 2 = of_nat (sizeof_iphdr + sizeof_icmphdr)
   \<and> load_u16 (flood_run rs (flood_setup pid daddr)) 4 = htons 12345
   \<and> load_u16 (flood_run rs (flood_setup pid daddr)) 6 = 0
   \<and> flood_run rs (flood_setup pid daddr) ! 8 = 255
   \<and> flood_run rs (flood_setup pid daddr) ! 9 = IPPROTO_ICMP
   \<and> load_u32 (flood_run rs (flood_setup pid daddr)) 16 = daddr
   \<and> flood_run rs (flood_setup pid daddr) ! 20 = ICMP_ECHO
   \<and> flood_run rs (flood_setup pid daddr) ! 21 = 0
   \<and> load_u16 (flood_run rs (flood_setup pid daddr)) 24 = htons (word_of_int pid)"
proof -
  have w: "load_u16 (flood_run rs (flood_setup pid daddr)) 24 = load_u16 (flood_setup pid daddr) 24"
    "load_u32 (flood_run rs (flood_setup pid daddr)) 16 = load_u32 (flood_setup pid daddr) 16"
    by (simp_all add: load_u16_def load_u32_def flood_run_frame)
  show ?thesis
    by (simp add: w flood_setup_words)
       (simp add: load_u16_def flood_run_frame flood_setup_bytes host_u16_def htons_def
          sizeof_iphdr_def sizeof_icmphdr_def IPPROTO_ICMP_def ICMP_ECHO_def)
qed

theorem flood_loop_frame_witness:
  "9 \<notin> {10, 11, 12, 13, 14, 15, 22, 23, 26, 27 :: nat}
   \<and> flood_run [(1, 7)] (flood_setup 4242 (inet_addr 10 0 0 9)) ! 9 = 1
   \<and> flood_run [(1, 7)] (flood_setup 4242 (inet_addr 10 0 0 9)) ! 8 = 255
   \<and> length (flood_run [(1, 7)] (flood_setup 4242 (inet_addr 10 0 0 9))) = 4096"
  using flood_loop_frame [of 9 "[(1, 7)]" "flood_setup 4242 (inet_addr 10 0 0 9)" 4242 "inet_addr 10 0 0 9"]
  by (simp add: flood_setup_bytes)

text \<open>
  C6. The total-length field holds \<open>sizeof(struct iphdr) + sizeof(struct icmphdr) = 28\<close>
  as a value of the host: the assignment has no \<open>htons\<close>, so that its bytes are \<open>1C 00\<close>
  and its value in network byte order is \<open>0x1C00 = 7168\<close>, not 28. The identification
  next to it is assigned through \<open>htons\<close> and reads 12345 in network byte order.
\<close>

theorem flood_total_length_host_order:
  "load_u16 (flood_run rs (flood_setup pid daddr)) 2 = 28
   \<and> flood_run rs (flood_setup pid daddr) ! 2 = 0x1C
   \<and> flood_run rs (flood_setup pid daddr) ! 3 = 0x00
   \<and> net_u16 (flood_run rs (flood_setup pid daddr)) 2 = 0x1C00
   \<and> net_u16 (flood_run rs (flood_setup pid daddr)) 4 = 12345"
  by (simp add: load_u16_def net_u16_def flood_run_frame flood_setup_bytes host_u16_def)














end
